theory Spec2Isabelle
  imports Main "HOL-Library.Sublist"
begin

section \<open>bskyTools: list membership and paginated export\<close>

text \<open>
  A shallow embedding of \<^verbatim>\<open>src/bsky_list_tool/bskylisttool.py\<close> (class
  \<^verbatim>\<open>BskyListTool\<close>) and of \<^verbatim>\<open>add_user_to_list\<close> of the older script
  \<^verbatim>\<open>scratch/bskyMassLister.py\<close>, whose main loop has the same body as
  \<^verbatim>\<open>add_file_to_list\<close>.

  The atproto client, the identity resolver, the clock and the local files are
  outside the repository: they are parameters of the model (\<open>service\<close>,
  \<open>local_env\<close>). Every request the code sends is appended to a log, so that
  "how many requests, which, in what order" is a statement about a list.
  A Python exception is a value \<open>Inl e\<close>; a while-loop that the server can keep
  alive for ever returns an \<open>option\<close>, \<open>None\<close> standing for "never returns".
\<close>

subsection \<open>Python strings\<close>

text \<open>
  A \<open>char\<close> stands for a code point below 256. \<^verbatim>\<open>str.isspace\<close> holds on exactly
  these code points of that range: TAB, LF, VT, FF, CR, the separators 28 to 31,
  SPACE, NEL (133) and NBSP (160).
\<close>

definition isspace :: "char \<Rightarrow> bool" where
  "isspace c = (of_char c \<in> {9, 10, 11, 12, 13, 28, 29, 30, 31, 32, 133, 160 :: nat})"

definition rstrip :: "string \<Rightarrow> string" where
  "rstrip s = rev (dropWhile isspace (rev s))"

definition strip :: "string \<Rightarrow> string" where
  "strip s = dropWhile isspace (rstrip s)"

definition startswith :: "string \<Rightarrow> string \<Rightarrow> bool" where
  "startswith s p = prefix p s"

text \<open>\<^verbatim>\<open>s.split(sep)\<close> for a one-character separator: k separators give k + 1 segments.\<close>

fun split :: "string \<Rightarrow> char \<Rightarrow> string list" where
  "split [] sep = [[]]"
| "split (c # cs) sep =
     (if c = sep then [] # split cs sep
      else (case split cs sep of
              [] \<Rightarrow> [[c]]
            | seg # segs \<Rightarrow> (c # seg) # segs))"

text \<open>\<^verbatim>\<open>sep.join(segs)\<close>, the inverse direction; used to state what \<open>split\<close> returns.\<close>

fun join :: "char \<Rightarrow> string list \<Rightarrow> string" where
  "join sep [] = []"
| "join sep [s] = s"
| "join sep (s # t # ss) = s @ sep # join sep (t # ss)"

text \<open>Iterating over a text file yields its lines, each with its newline kept.\<close>

fun readlines :: "string \<Rightarrow> string list" where
  "readlines [] = []"
| "readlines (c # cs) =
     (if c = CHR 0x0A then [c] # readlines cs
      else (case readlines cs of
              [] \<Rightarrow> [[c]]
            | l # ls \<Rightarrow> (c # l) # ls))"

subsection \<open>Errors\<close>

datatype error =
    ValueError string
  | TypeError
  | FileNotFoundError string
  | ListNotFoundException string
  | IndexError
  | OSError string
  | UnicodeDecodeError
  | ServiceError string

text \<open>
  \<open>ServiceError\<close> is whatever an external collaborator raises (the atproto
  client, the handle resolver, the configuration parser); \<open>OSError\<close> and
  \<open>UnicodeDecodeError\<close> are what \<^verbatim>\<open>open\<close> and \<^verbatim>\<open>read\<close> raise on a file that is there
  but cannot be read. The tool catches none of them.
\<close>

text \<open>\<^verbatim>\<open>xs[i]\<close> for a non-negative index.\<close>

definition index :: "'a list \<Rightarrow> nat \<Rightarrow> error + 'a" where
  "index xs i = (if i < length xs then Inr (xs ! i) else Inl IndexError)"

subsection \<open>Data exchanged with the service\<close>

record list_view =
  name :: string
  uri :: string

record lists_response =
  lists_of :: "list_view list"
  lists_cursor :: "string option"

record profile =
  did :: string

record list_item =
  subject :: profile

record like =
  actor :: profile

text \<open>
  One page of a paginated endpoint. The three responses name their item field
  \<^verbatim>\<open>items\<close>, \<^verbatim>\<open>followers\<close> and \<^verbatim>\<open>likes\<close>; all carry \<^verbatim>\<open>cursor\<close>.
\<close>

record 'a page =
  items :: "'a list"
  cursor :: "string option"

text \<open>\<^verbatim>\<open>models.AppBskyGraphListitem.Record(list, subject, created_at)\<close>\<close>

record listitem_record =
  rec_list :: string
  rec_subject :: string
  rec_created_at :: string

datatype api_call =
    Login string string
  | LoginSession string
  | GetLists string "string option"
  | GetList string nat "string option"
  | GetFollowers string nat "string option"
  | GetLikes string nat "string option"
  | ListitemCreate string listitem_record
  | IdResolve string
  | ResolveHandle string

text \<open>
  The answers of the outside world. \<open>clock_iso k\<close> is what the k-th call of
  \<^verbatim>\<open>client.get_current_time_iso()\<close> returns.
\<close>

record service =
  api_login :: "string \<Rightarrow> string \<Rightarrow> error option"
  api_login_session :: "string \<Rightarrow> error option"
  api_get_lists :: "string \<Rightarrow> string option \<Rightarrow> error + lists_response"
  api_get_list :: "string \<Rightarrow> nat \<Rightarrow> string option \<Rightarrow> error + list_item page"
  api_get_followers :: "string \<Rightarrow> nat \<Rightarrow> string option \<Rightarrow> error + profile page"
  api_get_likes :: "string \<Rightarrow> nat \<Rightarrow> string option \<Rightarrow> error + like page"
  api_listitem_create :: "string \<Rightarrow> listitem_record \<Rightarrow> error option"
  api_resolve_handle :: "string \<Rightarrow> error + string"
  idr_resolve :: "string \<Rightarrow> error + string"
  clock_iso :: "nat \<Rightarrow> string"

text \<open>
  The local files. \<open>file_text p\<close> is \<open>None\<close> when \<^verbatim>\<open>Path(p).exists()\<close> is false;
  \<open>Some (Inl e)\<close> when the path exists but \<^verbatim>\<open>open\<close> or \<^verbatim>\<open>read\<close> raises \<open>e\<close> on it (a
  directory, a file without read permission, bytes that are not UTF-8);
  \<open>Some (Inr t)\<close> when a text-mode read returns the text \<open>t\<close> (line ends already
  translated to LF). \<open>path_str p\<close> is \<^verbatim>\<open>str(Path(p))\<close>, the form in which pathlib
  prints the path (on POSIX without a leading \<^verbatim>\<open>./\<close> and without doubled slashes).
  \<open>config_options t\<close> is what \<^verbatim>\<open>ConfigParser.read_string\<close> makes of the text \<open>t\<close>: the
  options of section \<^verbatim>\<open>top\<close>, or the parser's exception.
\<close>

record local_env =
  file_text :: "string \<Rightarrow> (error + string) option"
  path_str :: "string \<Rightarrow> string"
  config_options :: "string \<Rightarrow> error + (string \<Rightarrow> string option)"

text \<open>
  What a run has done so far: the requests sent (oldest first), the number of
  clock readings taken, and the \<^verbatim>\<open>write\<close> calls on the output file since it was
  opened.
\<close>

record world =
  calls :: "api_call list"
  ticks :: nat
  written :: "string list"

definition request :: "api_call \<Rightarrow> world \<Rightarrow> world" where
  "request c w = w\<lparr>calls := calls w @ [c]\<rparr>"

record session =
  handle :: string
  token_file :: "string option"

subsection \<open>\<^verbatim>\<open>BskyListTool.__init__\<close>\<close>

text \<open>
  \<^verbatim>\<open>file is not Path\<close> compares an object with the class \<^verbatim>\<open>Path\<close> and is always
  true, so the argument always goes through \<^verbatim>\<open>Path(file)\<close>, which raises
  \<^verbatim>\<open>TypeError\<close> on \<^verbatim>\<open>None\<close>. A path that exists is opened and read; what that
  raises is not caught.
\<close>

definition read_token_from_file :: "local_env \<Rightarrow> string option \<Rightarrow> error + string option" where
  "read_token_from_file env file =
     (case file of
        None \<Rightarrow> Inl TypeError
      | Some p \<Rightarrow>
          (case file_text env p of
             None \<Rightarrow> Inr None
           | Some (Inl e) \<Rightarrow> Inl e
           | Some (Inr token) \<Rightarrow> Inr (Some token)))"

text \<open>
  Both \<^verbatim>\<open>config.get\<close> calls sit in one \<^verbatim>\<open>try\<close>: when \<^verbatim>\<open>my_handle\<close> is missing the
  password is never read.
\<close>

definition parse_config_file :: "local_env \<Rightarrow> string \<Rightarrow> error + (string option \<times> string option)" where
  "parse_config_file env text =
     (case config_options env (''[top]'' @ [CHR 0x0A] @ text) of
        Inl e \<Rightarrow> Inl e
      | Inr config \<Rightarrow>
          (case config ''my_handle'' of
             None \<Rightarrow> Inr (None, None)
           | Some h \<Rightarrow>
               (case config ''app_password'' of
                  None \<Rightarrow> Inr (Some h, None)
                | Some p \<Rightarrow> Inr (Some h, Some p))))"

definition login :: "service \<Rightarrow> string option \<Rightarrow> string \<Rightarrow> string \<Rightarrow> world \<Rightarrow> (error + unit) \<times> world" where
  "login svc token h password w =
     (case token of
        None \<Rightarrow>
          (case api_login svc h password of
             Some e \<Rightarrow> (Inl e, request (Login h password) w)
           | None \<Rightarrow> (Inr (), request (Login h password) w))
      | Some t \<Rightarrow>
          (case api_login_session svc t of
             Some e \<Rightarrow> (Inl e, request (LoginSession t) w)
           | None \<Rightarrow> (Inr (), request (LoginSession t) w)))"

definition init ::
  "local_env \<Rightarrow> service \<Rightarrow> string option \<Rightarrow> string option \<Rightarrow> string option \<Rightarrow> string option
     \<Rightarrow> world \<Rightarrow> (error + session) \<times> world" where
  "init env svc handle_arg password_arg cred_file token_file_arg w =
     (case read_token_from_file env token_file_arg of
        Inl e \<Rightarrow> (Inl e, w)
      | Inr token \<Rightarrow>
     (case cred_file of
        None \<Rightarrow> (Inl TypeError, w)
      | Some cp \<Rightarrow>
     (case (case file_text env cp of
              None \<Rightarrow> Inr (None, None)
            | Some (Inl e) \<Rightarrow> Inl e
            | Some (Inr text) \<Rightarrow> parse_config_file env text) of
        Inl e \<Rightarrow> (Inl e, w)
      | Inr (file_handle, file_pw) \<Rightarrow>
     (case (case handle_arg of None \<Rightarrow> file_handle | Some h \<Rightarrow> Some h) of
        None \<Rightarrow> (Inl (ValueError ''A bsky-handle was needed, but none was provided.''), w)
      | Some h \<Rightarrow>
     (case (case password_arg of None \<Rightarrow> file_pw | Some p \<Rightarrow> Some p) of
        None \<Rightarrow> (Inl (ValueError ''An app password is needed, but none was provided''), w)
      | Some password \<Rightarrow>
     (case login svc token h password w of
        (Inl e, w') \<Rightarrow> (Inl e, w')
      | (Inr _, w') \<Rightarrow> (Inr \<lparr>handle = h, token_file = token_file_arg\<rparr>, w')))))))"

subsection \<open>\<^verbatim>\<open>_get_list_uri\<close>\<close>

text \<open>The \<^verbatim>\<open>for ... else\<close> scan: the first entry with the name, else the exception.\<close>

fun scan_lists :: "list_view list \<Rightarrow> string \<Rightarrow> error + string" where
  "scan_lists [] listname =
     Inl (ListNotFoundException (''List with name '' @ listname @ '' could not be found.''))"
| "scan_lists (l # ls) listname =
     (if name l = listname then Inr (uri l) else scan_lists ls listname)"

definition get_list_uri :: "service \<Rightarrow> string \<Rightarrow> string \<Rightarrow> world \<Rightarrow> (error + string) \<times> world" where
  "get_list_uri svc listname owner w =
     (case api_get_lists svc owner None of
        Inl e \<Rightarrow> (Inl e, request (GetLists owner None) w)
      | Inr response \<Rightarrow> (scan_lists (lists_of response) listname, request (GetLists owner None) w))"

subsection \<open>\<^verbatim>\<open>_link_to_at_uri\<close>\<close>

definition link_to_at_uri :: "service \<Rightarrow> string \<Rightarrow> world \<Rightarrow> (error + string) \<times> world" where
  "link_to_at_uri svc link w =
     (let http_url = split link (CHR ''/'') in
      case index http_url 4 of
        Inl e \<Rightarrow> (Inl e, w)
      | Inr profile \<Rightarrow>
     (case index http_url 6 of
        Inl e \<Rightarrow> (Inl e, w)
      | Inr rkey \<Rightarrow>
     (case api_resolve_handle svc profile of
        Inl e \<Rightarrow> (Inl e, request (ResolveHandle profile) w)
      | Inr d \<Rightarrow>
          (Inr (''at://'' @ d @ ''/app.bsky.feed.post/'' @ rkey),
           request (ResolveHandle profile) w))))"

subsection \<open>\<^verbatim>\<open>add_file_to_list\<close>\<close>

text \<open>
  Lines 86 to 91 of the loop body (\<^verbatim>\<open>main\<close> of \<^verbatim>\<open>bskyMassLister.py\<close> has the same
  lines 57 to 62): \<open>Inr None\<close> for a line that is skipped, \<open>Inr (Some d)\<close> for the
  subject the line stands for.
\<close>

definition normalize_line :: "service \<Rightarrow> string \<Rightarrow> world \<Rightarrow> (error + string option) \<times> world" where
  "normalize_line svc line w =
     (if strip line = [] then (Inr None, w)
      else
        let line1 = rstrip line;
            line2 = (if startswith line1 ''@'' then drop 1 line1 else line1)
        in if startswith line2 ''did:'' then (Inr (Some line2), w)
           else (case idr_resolve svc line2 of
                   Inl e \<Rightarrow> (Inl e, request (IdResolve line2) w)
                 | Inr d \<Rightarrow> (Inr (Some d), request (IdResolve line2) w)))"

text \<open>
  Lines 92 to 99: the clock is read for \<^verbatim>\<open>created_at\<close>, then the record is sent.
  \<^verbatim>\<open>add_user_to_list\<close> of \<^verbatim>\<open>bskyMassLister.py\<close> is the same call with the fixed
  account \<^verbatim>\<open>BSKY_HANDLE\<close> as the repository.
\<close>

definition listitem_create :: "service \<Rightarrow> string \<Rightarrow> string \<Rightarrow> string \<Rightarrow> world \<Rightarrow> (error + unit) \<times> world" where
  "listitem_create svc repo list_uri subj w =
     (let record = \<lparr>rec_list = list_uri, rec_subject = subj,
                     rec_created_at = clock_iso svc (ticks w)\<rparr>;
          w' = request (ListitemCreate repo record) (w\<lparr>ticks := Suc (ticks w)\<rparr>)
      in case api_listitem_create svc repo record of
           Some e \<Rightarrow> (Inl e, w')
         | None \<Rightarrow> (Inr (), w'))"

definition BSKY_HANDLE :: string where
  "BSKY_HANDLE = ''chaosbengel.de''"

definition add_user_to_list :: "service \<Rightarrow> string \<Rightarrow> string \<Rightarrow> world \<Rightarrow> (error + unit) \<times> world" where
  "add_user_to_list svc d list_uri w = listitem_create svc BSKY_HANDLE list_uri d w"

definition add_line :: "service \<Rightarrow> string \<Rightarrow> string \<Rightarrow> string \<Rightarrow> world \<Rightarrow> (error + unit) \<times> world" where
  "add_line svc repo list_uri line w =
     (case normalize_line svc line w of
        (Inl e, w') \<Rightarrow> (Inl e, w')
      | (Inr None, w') \<Rightarrow> (Inr (), w')
      | (Inr (Some subj), w') \<Rightarrow> listitem_create svc repo list_uri subj w')"

text \<open>The \<^verbatim>\<open>for line in f\<close> loop: an exception leaves the loop and the function.\<close>

fun add_lines :: "service \<Rightarrow> string \<Rightarrow> string \<Rightarrow> string list \<Rightarrow> world \<Rightarrow> (error + unit) \<times> world" where
  "add_lines svc repo list_uri [] w = (Inr (), w)"
| "add_lines svc repo list_uri (line # rest) w =
     (case add_line svc repo list_uri line w of
        (Inl e, w') \<Rightarrow> (Inl e, w')
      | (Inr _, w') \<Rightarrow> add_lines svc repo list_uri rest w')"

definition add_file_to_list ::
  "local_env \<Rightarrow> service \<Rightarrow> session \<Rightarrow> string \<Rightarrow> string \<Rightarrow> world \<Rightarrow> (error + unit) \<times> world" where
  "add_file_to_list env svc self listname file w =
     (case file_text env file of
        None \<Rightarrow>
          (Inl (FileNotFoundError (''File '' @ path_str env file @ '' could not be found.'')), w)
      | Some content \<Rightarrow>
     (case get_list_uri svc listname (handle self) w of
        (Inl e, w') \<Rightarrow> (Inl e, w')
      | (Inr list_uri, w') \<Rightarrow>
     (case content of
        Inl e \<Rightarrow> (Inl e, w')
      | Inr text \<Rightarrow> add_lines svc (handle self) list_uri (readlines text) w')))"

subsection \<open>The paginated exports\<close>

text \<open>
  The three \<^verbatim>\<open>while True\<close> loops of \<^verbatim>\<open>backup_list\<close>, \<^verbatim>\<open>get_followers\<close> and
  \<^verbatim>\<open>get_likes\<close> are the same text up to the request sent (\<open>fetch\<close>, logged as
  \<open>mk\<close>) and the field written (\<open>proj\<close>): fetch with the current cursor, keep the
  cursor of the answer, write one line per item, stop when the cursor is
  \<^verbatim>\<open>None\<close>. Nothing bounds the number of rounds, hence the \<open>option\<close>.
\<close>

partial_function (option) collect_loop ::
  "(string option \<Rightarrow> error + 'a page) \<Rightarrow> (string option \<Rightarrow> api_call) \<Rightarrow> ('a \<Rightarrow> string)
     \<Rightarrow> string option \<Rightarrow> world \<Rightarrow> ((error + unit) \<times> world) option" where
  "collect_loop fetch mk proj cur w =
     (case fetch cur of
        Inl e \<Rightarrow> Some (Inl e, request (mk cur) w)
      | Inr response \<Rightarrow>
          (let w' = (request (mk cur) w)
                      \<lparr>written := written w @ map (\<lambda>entry. proj entry @ [CHR 0x0A]) (items response)\<rparr>
           in if cursor response = None then Some (Inr (), w')
              else collect_loop fetch mk proj (cursor response) w'))"

definition get_followers :: "service \<Rightarrow> string \<Rightarrow> world \<Rightarrow> ((error + unit) \<times> world) option" where
  "get_followers svc h w =
     collect_loop (api_get_followers svc h 100) (GetFollowers h 100) did None (w\<lparr>written := []\<rparr>)"

definition backup_list :: "service \<Rightarrow> string \<Rightarrow> string \<Rightarrow> world \<Rightarrow> ((error + unit) \<times> world) option" where
  "backup_list svc listname owner w =
     (case get_list_uri svc listname owner w of
        (Inl e, w') \<Rightarrow> Some (Inl e, w')
      | (Inr list_uri, w') \<Rightarrow>
          collect_loop (api_get_list svc list_uri 100) (GetList list_uri 100) (\<lambda>entry. did (subject entry))
            None (w'\<lparr>written := []\<rparr>))"

definition get_likes :: "service \<Rightarrow> string \<Rightarrow> world \<Rightarrow> ((error + unit) \<times> world) option" where
  "get_likes svc post_url w =
     (case link_to_at_uri svc post_url w of
        (Inl e, w') \<Rightarrow> Some (Inl e, w')
      | (Inr at_uri, w') \<Rightarrow>
          collect_loop (api_get_likes svc at_uri 100) (GetLikes at_uri 100) (\<lambda>l. did (actor l))
            None (w'\<lparr>written := []\<rparr>))"

subsection \<open>A collection served as pages\<close>

text \<open>
  \<open>serves fetch cur ps\<close>: asked with the cursor \<open>cur\<close>, the endpoint answers with the
  pages \<open>ps\<close> one after the other, each request carrying the cursor of the page
  before; every page but the last has a cursor and the last has none.
\<close>

fun serves :: "(string option \<Rightarrow> error + 'a page) \<Rightarrow> string option \<Rightarrow> 'a page list \<Rightarrow> bool" where
  "serves fetch cur [] = False"
| "serves fetch cur [p] = (fetch cur = Inr p \<and> cursor p = None)"
| "serves fetch cur (p # q # ps) =
     (fetch cur = Inr p \<and> cursor p \<noteq> None \<and> serves fetch (cursor p) (q # ps))"

text \<open>
  The pages are cut at the limit of 100: every page but the last holds exactly
  100 items, the last at most 100, and it is empty only when it is the only one.
\<close>

definition full_pages :: "'a page list \<Rightarrow> bool" where
  "full_pages ps =
     (ps \<noteq> [] \<and> list_all (\<lambda>p. length (items p) = 100) (butlast ps)
      \<and> length (items (last ps)) \<le> 100
      \<and> (items (last ps) = [] \<longrightarrow> length ps = 1))"

subsection \<open>Reading the log\<close>

text \<open>The membership-creation requests among the requests of a run.\<close>

fun is_create :: "api_call \<Rightarrow> bool" where
  "is_create (ListitemCreate repo r) = True"
| "is_create c = False"

subsection \<open>A concrete world\<close>

text \<open>
  A run that has done nothing yet, and one fixed behaviour of the outside world,
  used to evaluate the functions above on concrete inputs.
\<close>

definition fresh :: world where
  "fresh = \<lparr>calls = [], ticks = 0, written = []\<rparr>"

definition demo_service :: service where
  "demo_service =
     \<lparr>api_login = (\<lambda>h p. None),
      api_login_session = (\<lambda>t. None),
      api_get_lists = (\<lambda>owner cur.
        case cur of
          None \<Rightarrow> Inr \<lparr>lists_of = [\<lparr>name = ''Work'', uri = ''u1''\<rparr>, \<lparr>name = ''Friends'', uri = ''u2''\<rparr>],
                       lists_cursor = Some ''more''\<rparr>
        | Some c \<Rightarrow> Inr \<lparr>lists_of = [\<lparr>name = ''Archive'', uri = ''u3''\<rparr>], lists_cursor = None\<rparr>),
      api_get_list = (\<lambda>list_uri limit cur.
        case cur of
          None \<Rightarrow> Inr \<lparr>items = [\<lparr>subject = \<lparr>did = ''did:plc:m1''\<rparr>\<rparr>], cursor = Some ''c1''\<rparr>
        | Some c \<Rightarrow> Inr \<lparr>items = [\<lparr>subject = \<lparr>did = ''did:plc:m2''\<rparr>\<rparr>], cursor = None\<rparr>),
      api_get_followers = (\<lambda>h limit cur.
        case cur of
          None \<Rightarrow> Inr \<lparr>items = replicate 100 \<lparr>did = ''did:plc:f1''\<rparr>, cursor = Some ''c1''\<rparr>
        | Some c \<Rightarrow> Inr \<lparr>items = [\<lparr>did = ''did:plc:f2''\<rparr>], cursor = None\<rparr>),
      api_get_likes = (\<lambda>at_uri limit cur.
        Inr \<lparr>items = [\<lparr>actor = \<lparr>did = ''did:plc:k1''\<rparr>\<rparr>], cursor = None\<rparr>),
      api_listitem_create = (\<lambda>repo r.
        if rec_subject r = ''did:plc:gone'' then Some (ServiceError ''rejected'') else None),
      api_resolve_handle = (\<lambda>h.
        if h = ''alice.example'' then Inr ''did:plc:alice'' else Inl (ServiceError ''unknown handle'')),
      idr_resolve = (\<lambda>h.
        if h = ''alice.example'' then Inr ''did:plc:alice'' else Inl (ServiceError ''unknown handle'')),
      clock_iso = (\<lambda>k. if k = 0 then ''2024-05-01T10:00:00'' else ''2024-05-01T10:00:01'')\<rparr>"

text \<open>The same service with a clock that stands still.\<close>

definition stalled_clock_service :: service where
  "stalled_clock_service = demo_service\<lparr>clock_iso := (\<lambda>k. ''2024-05-01T10:00:00'')\<rparr>"

text \<open>
  The files of that world: a cached token, a credential file, a file of four
  lines for \<^verbatim>\<open>list add\<close>, and a token file that may not be read.
\<close>

definition demo_env :: local_env where
  "demo_env =
     \<lparr>file_text = (\<lambda>p.
        if p = ''./.bsky.token'' then Some (Inr ''session-token'')
        else if p = ''./config''
          then Some (Inr (''my_handle = me.example'' @ [CHR 0x0A] @ ''app_password = app-pw'' @ [CHR 0x0A]))
        else if p = ''members.txt''
          then Some (Inr (''did:plc:a'' @ [CHR 0x0A] @ [CHR 0x0A] @ ''did:plc:gone'' @ [CHR 0x0A]
                          @ ''did:plc:b'' @ [CHR 0x0A]))
        else if p = ''./locked.token'' then Some (Inl (OSError ''Permission denied''))
        else None),
      path_str = (\<lambda>p. if startswith p ''./'' then drop 2 p else p),
      config_options = (\<lambda>t. Inr (\<lambda>k.
        if k = ''my_handle'' then Some ''me.example''
        else if k = ''app_password'' then Some ''app-pw''
        else None))\<rparr>"

section \<open>Properties\<close>

subsection \<open>Scanning and splitting\<close>

lemma scan_lists_first:
  "\<forall>x\<in>set pre. name x \<noteq> n \<Longrightarrow> name l = n \<Longrightarrow> scan_lists (pre @ l # post) n = Inr (uri l)"
  by (induction pre) auto

lemma scan_lists_none:
  "\<forall>x\<in>set ls. name x \<noteq> n \<Longrightarrow>
   scan_lists ls n = Inl (ListNotFoundException (''List with name '' @ n @ '' could not be found.''))"
  by (induction ls) auto

lemma split_nonempty: "split s sep \<noteq> []"
  by (induction s) (auto split: list.splits)

lemma split_join:
  "segs \<noteq> [] \<Longrightarrow> \<forall>s\<in>set segs. sep \<notin> set s \<Longrightarrow> split (join sep segs) sep = segs"
proof (induction sep segs rule: join.induct)
  case (1 sep)
  then show ?case by simp
next
  case (2 sep s)
  then show ?case by (induction s) (auto split: list.splits)
next
  case (3 sep s t ss)
  then have IH: "split (join sep (t # ss)) sep = t # ss" by simp
  from 3 have "sep \<notin> set s" by simp
  then show ?case using IH
    by (induction s) (auto split: list.splits)
qed

lemma join_split: "join sep (split s sep) = s"
proof (induction s)
  case Nil
  then show ?case by simp
next
  case (Cons c cs)
  show ?case
  proof (cases "c = sep")
    case True
    then show ?thesis using Cons split_nonempty[of cs sep]
      by (cases "split cs sep") auto
  next
    case False
    then show ?thesis using Cons split_nonempty[of cs sep]
      by (cases "split cs sep"; cases "tl (split cs sep)") auto
  qed
qed

lemma split_no_sep: "seg \<in> set (split s sep) \<Longrightarrow> sep \<notin> set seg"
  by (induction s arbitrary: seg) (auto split: if_splits list.splits)

subsection \<open>List resolution\<close>

text \<open>
  C3. Given the answer of the one \<^verbatim>\<open>get_lists\<close> request, \<^verbatim>\<open>_get_list_uri\<close> returns the
  \<^verbatim>\<open>uri\<close> of the first list, in the order of the answer, whose name equals the
  requested name, and raises \<^verbatim>\<open>ListNotFoundException\<close> when no list of the answer has
  that name.
\<close>

theorem get_list_uri_first_match:
  assumes "api_get_lists svc owner None = Inr response"
  shows "(\<forall>pre l post. lists_of response = pre @ l # post \<and> (\<forall>x\<in>set pre. name x \<noteq> listname)
              \<and> name l = listname
            \<longrightarrow> fst (get_list_uri svc listname owner w) = Inr (uri l))
       \<and> ((\<forall>x\<in>set (lists_of response). name x \<noteq> listname)
            \<longrightarrow> fst (get_list_uri svc listname owner w)
                = Inl (ListNotFoundException (''List with name '' @ listname @ '' could not be found.'')))"
  using assms by (auto simp: get_list_uri_def scan_lists_first scan_lists_none)

theorem get_list_uri_first_match_witness:
  "fst (get_list_uri demo_service ''Friends'' ''me.example'' fresh) = Inr ''u2''
   \<and> fst (get_list_uri demo_service ''Enemies'' ''me.example'' fresh)
     = Inl (ListNotFoundException ''List with name Enemies could not be found.'')"
proof -
  let ?r = "\<lparr>lists_of = [\<lparr>name = ''Work'', uri = ''u1''\<rparr>, \<lparr>name = ''Friends'', uri = ''u2''\<rparr>],
              lists_cursor = Some ''more''\<rparr>"
  have r: "api_get_lists demo_service ''me.example'' None = Inr ?r"
    by (simp add: demo_service_def)
  have a: "lists_of ?r = [\<lparr>name = ''Work'', uri = ''u1''\<rparr>] @ \<lparr>name = ''Friends'', uri = ''u2''\<rparr> # []
             \<and> (\<forall>x\<in>set [\<lparr>name = ''Work'', uri = ''u1''\<rparr>]. name x \<noteq> ''Friends'')
             \<and> name \<lparr>name = ''Friends'', uri = ''u2''\<rparr> = ''Friends''"
    by simp
  have b: "\<forall>x\<in>set (lists_of ?r). name x \<noteq> ''Enemies''"
    by simp
  from get_list_uri_first_match [OF r, of "''Friends''" fresh] a
  have 1: "fst (get_list_uri demo_service ''Friends'' ''me.example'' fresh) = Inr ''u2''"
    by (metis list_view.select_convs(2))
  from get_list_uri_first_match [OF r, of "''Enemies''" fresh] b
  have 2: "fst (get_list_uri demo_service ''Enemies'' ''me.example'' fresh)
     = Inl (ListNotFoundException ''List with name Enemies could not be found.'')"
    by simp
  from 1 2 show ?thesis by simp
qed

text \<open>
  C9. \<^verbatim>\<open>_get_list_uri\<close> sends exactly one \<^verbatim>\<open>get_lists\<close> request, without a cursor, and
  its result depends on the answer to that request alone: whatever the service
  would return for a cursor is never asked for. In particular, when no list of
  the first page has the name, the result is \<^verbatim>\<open>ListNotFoundException\<close>, even if a
  later page holds a list of that name (the witness is such an owner).
\<close>

theorem get_list_uri_single_page:
  "calls (snd (get_list_uri svc listname owner w)) = calls w @ [GetLists owner None]
   \<and> (\<forall>svc'. api_get_lists svc' owner None = api_get_lists svc owner None
         \<longrightarrow> get_list_uri svc' listname owner w = get_list_uri svc listname owner w)
   \<and> (\<forall>response. api_get_lists svc owner None = Inr response
           \<and> (\<forall>x\<in>set (lists_of response). name x \<noteq> listname)
         \<longrightarrow> fst (get_list_uri svc listname owner w)
             = Inl (ListNotFoundException (''List with name '' @ listname @ '' could not be found.'')))"
  by (auto simp: get_list_uri_def request_def scan_lists_none split: sum.splits)

theorem get_list_uri_single_page_witness:
  "(\<exists>later. api_get_lists demo_service ''me.example'' (Some ''more'') = Inr later
        \<and> ''Archive'' \<in> name ` set (lists_of later))
   \<and> fst (get_list_uri demo_service ''Archive'' ''me.example'' fresh)
     = Inl (ListNotFoundException ''List with name Archive could not be found.'')
   \<and> calls (snd (get_list_uri demo_service ''Archive'' ''me.example'' fresh))
     = [GetLists ''me.example'' None]"
proof -
  let ?r = "\<lparr>lists_of = [\<lparr>name = ''Work'', uri = ''u1''\<rparr>, \<lparr>name = ''Friends'', uri = ''u2''\<rparr>],
              lists_cursor = Some ''more''\<rparr>"
  have r: "api_get_lists demo_service ''me.example'' None = Inr ?r
             \<and> (\<forall>x\<in>set (lists_of ?r). name x \<noteq> ''Archive'')"
    by (simp add: demo_service_def)
  have later: "\<exists>later. api_get_lists demo_service ''me.example'' (Some ''more'') = Inr later
        \<and> ''Archive'' \<in> name ` set (lists_of later)"
    by (simp add: demo_service_def)
  note t = get_list_uri_single_page [of demo_service "''Archive''" "''me.example''" fresh]
  from t have c: "calls (snd (get_list_uri demo_service ''Archive'' ''me.example'' fresh))
                    = calls fresh @ [GetLists ''me.example'' None]"
    by (rule conjunct1)
  from t have "\<forall>response. api_get_lists demo_service ''me.example'' None = Inr response
           \<and> (\<forall>x\<in>set (lists_of response). name x \<noteq> ''Archive'')
         \<longrightarrow> fst (get_list_uri demo_service ''Archive'' ''me.example'' fresh)
             = Inl (ListNotFoundException (''List with name '' @ ''Archive'' @ '' could not be found.''))"
    by (rule conjunct2 [THEN conjunct2])
  with r have m: "fst (get_list_uri demo_service ''Archive'' ''me.example'' fresh)
             = Inl (ListNotFoundException (''List with name '' @ ''Archive'' @ '' could not be found.''))"
    by blast
  from c m have "fst (get_list_uri demo_service ''Archive'' ''me.example'' fresh)
     = Inl (ListNotFoundException ''List with name Archive could not be found.'')
   \<and> calls (snd (get_list_uri demo_service ''Archive'' ''me.example'' fresh))
     = [GetLists ''me.example'' None]"
    by (simp add: fresh_def)
  with later show ?thesis by simp
qed

subsection \<open>Post links\<close>

text \<open>
  C7. When the link splits on \<^verbatim>\<open>/\<close> into at least 7 segments and the service resolves
  segment 4 to the identifier \<open>X\<close>, \<^verbatim>\<open>_link_to_at_uri\<close> sends that one resolution
  request and returns exactly \<^verbatim>\<open>at://X/app.bsky.feed.post/\<close> followed by segment 6.
\<close>

theorem link_to_at_uri_post:
  assumes "7 \<le> length (split link (CHR ''/''))"
    and "api_resolve_handle svc (split link (CHR ''/'') ! 4) = Inr X"
  shows "link_to_at_uri svc link w
           = (Inr (''at://'' @ X @ ''/app.bsky.feed.post/'' @ split link (CHR ''/'') ! 6),
              request (ResolveHandle (split link (CHR ''/'') ! 4)) w)"
  using assms by (simp add: link_to_at_uri_def index_def Let_def)

theorem link_to_at_uri_post_witness:
  "link_to_at_uri demo_service ''https://site/profile/alice.example/post/rkey123'' fresh
     = (Inr ''at://did:plc:alice/app.bsky.feed.post/rkey123'',
        \<lparr>calls = [ResolveHandle ''alice.example''], ticks = 0, written = []\<rparr>)"
proof -
  have s: "split ''https://site/profile/alice.example/post/rkey123'' (CHR ''/'')
             = [''https:'', [], ''site'', ''profile'', ''alice.example'', ''post'', ''rkey123'']"
    by code_simp
  have a: "7 \<le> length (split ''https://site/profile/alice.example/post/rkey123'' (CHR ''/''))"
    by (simp only: s) simp
  have b: "api_resolve_handle demo_service
             (split ''https://site/profile/alice.example/post/rkey123'' (CHR ''/'') ! 4)
           = Inr ''did:plc:alice''"
    by (simp only: s) (simp add: demo_service_def)
  show ?thesis
    using link_to_at_uri_post [OF a b, of fresh]
    by (simp only: s) (simp add: request_def fresh_def)
qed

text \<open>
  C8, as the specification states it, asks for a dedicated malformed-link error
  on a link of fewer than 7 segments. The code has no such error: the link
  \<^verbatim>\<open>https://site/profile/alice.example\<close> (5 segments) ends in the plain
  \<^verbatim>\<open>IndexError\<close> of the subscript.
\<close>

theorem link_to_at_uri_short_counterexample:
  "link_to_at_uri demo_service ''https://site/profile/alice.example'' fresh
     = (Inl IndexError, fresh)"
proof -
  have "split ''https://site/profile/alice.example'' (CHR ''/'')
          = [''https:'', [], ''site'', ''profile'', ''alice.example'']"
    by code_simp
  then show ?thesis
    by (simp add: link_to_at_uri_def index_def del: split.simps)
qed

text \<open>
  C8, amended. For every link that splits on \<^verbatim>\<open>/\<close> into fewer than 7 segments,
  \<^verbatim>\<open>_link_to_at_uri\<close> fails with the unconverted \<^verbatim>\<open>IndexError\<close> of the subscript,
  before any request is sent.
\<close>

theorem link_to_at_uri_short:
  assumes "length (split link (CHR ''/'')) < 7"
  shows "link_to_at_uri svc link w = (Inl IndexError, w)"
  using assms by (simp add: link_to_at_uri_def index_def Let_def)

theorem link_to_at_uri_short_witness:
  "length (split ''https://site/profile/alice.example/post'' (CHR ''/'')) = 6
   \<and> link_to_at_uri demo_service ''https://site/profile/alice.example/post'' fresh
     = (Inl IndexError, fresh)"
proof -
  have a: "length (split ''https://site/profile/alice.example/post'' (CHR ''/'')) = 6"
    by code_simp
  then have b: "length (split ''https://site/profile/alice.example/post'' (CHR ''/'')) < 7"
    by simp
  from a link_to_at_uri_short [OF b, of demo_service fresh] show ?thesis by simp
qed

subsection \<open>Normalising an input line\<close>

lemma strip_empty_iff: "strip s = [] \<longleftrightarrow> (\<forall>c\<in>set s. isspace c)"
proof -
  have "strip s = [] \<longleftrightarrow> (\<forall>c\<in>set (rstrip s). isspace c)"
    by (simp add: strip_def dropWhile_eq_Nil_conv)
  also have "\<dots> \<longleftrightarrow> rstrip s = []"
  proof
    assume a: "\<forall>c\<in>set (rstrip s). isspace c"
    show "rstrip s = []"
    proof (rule ccontr)
      assume "rstrip s \<noteq> []"
      then have ne: "dropWhile isspace (rev s) \<noteq> []" by (simp add: rstrip_def)
      then have "\<not> isspace (hd (dropWhile isspace (rev s)))" by (rule hd_dropWhile)
      moreover from ne have "hd (dropWhile isspace (rev s)) \<in> set (rstrip s)"
        by (simp add: rstrip_def)
      ultimately show False using a by blast
    qed
  qed simp
  also have "\<dots> \<longleftrightarrow> (\<forall>c\<in>set s. isspace c)"
    by (auto simp: rstrip_def dropWhile_eq_Nil_conv)
  finally show ?thesis .
qed

lemma rstrip_decomp: "\<exists>ws. s = rstrip s @ ws \<and> (\<forall>c\<in>set ws. isspace c)"
proof -
  have "rev (takeWhile isspace (rev s) @ dropWhile isspace (rev s)) = rev (rev s)"
    by (simp only: takeWhile_dropWhile_id)
  then have "rev (dropWhile isspace (rev s)) @ rev (takeWhile isspace (rev s)) = s"
    by (simp only: rev_append rev_rev_ident)
  then have "s = rstrip s @ rev (takeWhile isspace (rev s))"
    by (simp only: rstrip_def)
  moreover have "\<forall>c\<in>set (rev (takeWhile isspace (rev s))). isspace c"
    by (auto dest: set_takeWhileD)
  ultimately show ?thesis by blast
qed

lemma rstrip_last: "rstrip s \<noteq> [] \<Longrightarrow> \<not> isspace (last (rstrip s))"
  by (simp add: rstrip_def last_rev hd_dropWhile)

lemma rstrip_id: "s = [] \<or> \<not> isspace (last s) \<Longrightarrow> rstrip s = s"
  by (cases "rev s") (auto simp: rstrip_def last_rev)

lemma rstrip_Cons: "\<not> isspace c \<Longrightarrow> rstrip (c # s) = c # rstrip s"
proof -
  assume c: "\<not> isspace c"
  have "dropWhile isspace (rev s @ [c]) = dropWhile isspace (rev s) @ [c]"
    using c by (simp add: dropWhile_append)
  then show ?thesis by (simp add: rstrip_def)
qed

lemma rstrip_prefix_kept:
  "prefix p s \<Longrightarrow> \<forall>c\<in>set p. \<not> isspace c \<Longrightarrow> prefix p (rstrip s)"
proof (induction p arbitrary: s)
  case Nil
  then show ?case by simp
next
  case (Cons a p)
  then obtain t where s: "s = a # t" and pt: "prefix p t"
    by (cases s) auto
  from Cons.prems have a: "\<not> isspace a" by simp
  with Cons s pt show ?case by (simp add: rstrip_Cons)
qed

lemma isspace_at: "\<not> isspace (CHR ''@'')" by (simp add: isspace_def)
lemma isspace_did: "\<forall>c\<in>set ''did:''. \<not> isspace c" by (simp add: isspace_def)

text \<open>
  C4. A line of whitespace only is skipped: nothing is returned, nothing is
  sent, nothing fails. Any other line loses its trailing whitespace and nothing
  else (what is cut off is whitespace, what remains is a prefix of the line that
  does not end in whitespace), then one leading \<^verbatim>\<open>@\<close> if there is one; if the rest
  starts with \<^verbatim>\<open>did:\<close> it is the result, with no request to the resolver; otherwise
  the rest is sent to the handle resolver, whose answer (or failure) is the
  result.
\<close>

theorem normalize_line_cases:
  "((\<forall>c\<in>set line. isspace c)
      \<longrightarrow> normalize_line svc line w = (Inr None, w) \<and> add_line svc repo list_uri line w = (Inr (), w))
   \<and> ((\<exists>c\<in>set line. \<not> isspace c)
      \<longrightarrow> (let t = rstrip line;
               h = (if t \<noteq> [] \<and> hd t = CHR ''@'' then tl t else t)
           in if prefix ''did:'' h then normalize_line svc line w = (Inr (Some h), w)
              else normalize_line svc line w =
                     (case idr_resolve svc h of
                        Inl e \<Rightarrow> (Inl e, request (IdResolve h) w)
                      | Inr d \<Rightarrow> (Inr (Some d), request (IdResolve h) w))))
   \<and> (\<exists>ws. line = rstrip line @ ws \<and> (\<forall>c\<in>set ws. isspace c))
   \<and> (rstrip line \<noteq> [] \<longrightarrow> \<not> isspace (last (rstrip line)))"
proof -
  have blank: "(\<forall>c\<in>set line. isspace c)
      \<longrightarrow> normalize_line svc line w = (Inr None, w) \<and> add_line svc repo list_uri line w = (Inr (), w)"
    by (simp add: normalize_line_def add_line_def strip_empty_iff)
  have at: "prefix ''@'' t \<longleftrightarrow> t \<noteq> [] \<and> hd t = CHR ''@''" for t
    by (cases t) auto
  have nonblank: "(\<exists>c\<in>set line. \<not> isspace c)
      \<longrightarrow> (let t = rstrip line;
               h = (if t \<noteq> [] \<and> hd t = CHR ''@'' then tl t else t)
           in if prefix ''did:'' h then normalize_line svc line w = (Inr (Some h), w)
              else normalize_line svc line w =
                     (case idr_resolve svc h of
                        Inl e \<Rightarrow> (Inl e, request (IdResolve h) w)
                      | Inr d \<Rightarrow> (Inr (Some d), request (IdResolve h) w)))"
  proof
    assume "\<exists>c\<in>set line. \<not> isspace c"
    then have ne: "strip line \<noteq> []" by (simp add: strip_empty_iff)
    show "(let t = rstrip line;
               h = (if t \<noteq> [] \<and> hd t = CHR ''@'' then tl t else t)
           in if prefix ''did:'' h then normalize_line svc line w = (Inr (Some h), w)
              else normalize_line svc line w =
                     (case idr_resolve svc h of
                        Inl e \<Rightarrow> (Inl e, request (IdResolve h) w)
                      | Inr d \<Rightarrow> (Inr (Some d), request (IdResolve h) w)))"
      using ne
      by (simp add: normalize_line_def Let_def at drop_Suc startswith_def cong: sum.case_cong)
  qed
  from blank nonblank rstrip_decomp [of line] rstrip_last [of line] show ?thesis by blast
qed

theorem normalize_line_cases_witness:
  "normalize_line demo_service (''@alice.example'' @ [CHR 0x0A]) fresh
     = (Inr (Some ''did:plc:alice''), \<lparr>calls = [IdResolve ''alice.example''], ticks = 0, written = []\<rparr>)
   \<and> normalize_line demo_service ''did:plc:abc123'' fresh = (Inr (Some ''did:plc:abc123''), fresh)
   \<and> normalize_line demo_service ''   '' fresh = (Inr None, fresh)"
proof -
  have r1: "rstrip (''@alice.example'' @ [CHR 0x0A]) = ''@alice.example''"
    by (simp add: rstrip_def isspace_def)
  have r2: "rstrip ''did:plc:abc123'' = ''did:plc:abc123''"
    by (simp add: rstrip_def isspace_def)
  have n1: "\<exists>c\<in>set (''@alice.example'' @ [CHR 0x0A]). \<not> isspace c"
    by (simp add: isspace_def)
  have n2: "\<exists>c\<in>set ''did:plc:abc123''. \<not> isspace c"
    by (simp add: isspace_def)
  have b3: "\<forall>c\<in>set ''   ''. isspace c"
    by (simp add: isspace_def)
  have 1: "normalize_line demo_service (''@alice.example'' @ [CHR 0x0A]) fresh
     = (Inr (Some ''did:plc:alice''), \<lparr>calls = [IdResolve ''alice.example''], ticks = 0, written = []\<rparr>)"
    using normalize_line_cases [of "''@alice.example'' @ [CHR 0x0A]" demo_service fresh] n1
    by (simp only: r1 Let_def) (simp add: demo_service_def fresh_def request_def)
  have 2: "normalize_line demo_service ''did:plc:abc123'' fresh = (Inr (Some ''did:plc:abc123''), fresh)"
    using normalize_line_cases [of "''did:plc:abc123''" demo_service fresh] n2
    by (simp only: r2 Let_def) simp
  have 3: "normalize_line demo_service ''   '' fresh = (Inr None, fresh)"
    using normalize_line_cases [of "''   ''" demo_service fresh] b3
    by blast
  from 1 2 3 show ?thesis by simp
qed

text \<open>
  C10, as the specification states it, returns the line with only its leading
  \<^verbatim>\<open>@\<close> removed. The lines the loop reads end in a newline, and the newline is
  trimmed as well: the line \<^verbatim>\<open>@did:plc:abc\<close> followed by LF gives \<^verbatim>\<open>did:plc:abc\<close>, not
  \<^verbatim>\<open>did:plc:abc\<close> followed by LF.
\<close>

theorem normalize_at_did_newline_counterexample:
  "normalize_line demo_service (CHR ''@'' # ''did:plc:abc'' @ [CHR 0x0A]) fresh
     = (Inr (Some ''did:plc:abc''), fresh)
   \<and> normalize_line demo_service (CHR ''@'' # ''did:plc:abc'' @ [CHR 0x0A]) fresh
     \<noteq> (Inr (Some (''did:plc:abc'' @ [CHR 0x0A])), fresh)"
  by (simp add: normalize_line_def strip_def rstrip_def isspace_def startswith_def)

text \<open>
  C10, amended. A line that is \<^verbatim>\<open>@\<close> followed by a string \<open>d\<close> starting with \<^verbatim>\<open>did:\<close>
  is never sent to the resolver, because the \<^verbatim>\<open>@\<close> is dropped before the prefix
  is tested. The result is \<open>d\<close> without its trailing whitespace: what is cut off
  is whitespace, what remains does not end in whitespace and still starts with
  \<^verbatim>\<open>did:\<close>. It is \<open>d\<close> itself, the line with only its \<^verbatim>\<open>@\<close> removed, when \<open>d\<close> does
  not end in whitespace.
\<close>

theorem normalize_at_did:
  assumes "prefix ''did:'' d"
  shows "normalize_line svc (CHR ''@'' # d) w = (Inr (Some (rstrip d)), w)
         \<and> (\<exists>ws. d = rstrip d @ ws \<and> (\<forall>c\<in>set ws. isspace c))
         \<and> \<not> isspace (last (rstrip d))
         \<and> prefix ''did:'' (rstrip d)
         \<and> (d = [] \<or> \<not> isspace (last d) \<longrightarrow> normalize_line svc (CHR ''@'' # d) w = (Inr (Some d), w))"
proof -
  have ne: "strip (CHR ''@'' # d) \<noteq> []"
    using isspace_at by (auto simp: strip_empty_iff)
  have r: "rstrip (CHR ''@'' # d) = CHR ''@'' # rstrip d"
    using isspace_at by (rule rstrip_Cons)
  have p: "prefix ''did:'' (rstrip d)"
    using assms isspace_did by (rule rstrip_prefix_kept)
  then have "rstrip d \<noteq> []" by auto
  then have l: "\<not> isspace (last (rstrip d))" by (rule rstrip_last)
  have 1: "normalize_line svc (CHR ''@'' # d) w = (Inr (Some (rstrip d)), w)"
    using ne p by (simp add: normalize_line_def r startswith_def Let_def)
  then have 2: "d = [] \<or> \<not> isspace (last d) \<longrightarrow> normalize_line svc (CHR ''@'' # d) w = (Inr (Some d), w)"
    by (auto simp: rstrip_id)
  from 1 2 p l rstrip_decomp [of d] show ?thesis by blast
qed

theorem normalize_at_did_witness:
  "normalize_line demo_service ''@did:plc:abc'' fresh = (Inr (Some ''did:plc:abc''), fresh)
   \<and> normalize_line demo_service (''@did:plc:abc'' @ [CHR 0x0A, CHR 0x0A]) fresh
     = (Inr (Some ''did:plc:abc''), fresh)"
proof -
  have p1: "prefix ''did:'' ''did:plc:abc''" by simp
  have p2: "prefix ''did:'' (''did:plc:abc'' @ [CHR 0x0A, CHR 0x0A])" by simp
  have l: "''did:plc:abc'' = [] \<or> \<not> isspace (last ''did:plc:abc'')"
    by (simp add: isspace_def)
  have r: "rstrip (''did:plc:abc'' @ [CHR 0x0A, CHR 0x0A]) = ''did:plc:abc''"
    by (simp add: rstrip_def isspace_def)
  note a = normalize_at_did [OF p1, of demo_service fresh]
  note b = normalize_at_did [OF p2, of demo_service fresh]
  from a have "''did:plc:abc'' = [] \<or> \<not> isspace (last ''did:plc:abc'')
      \<longrightarrow> normalize_line demo_service (CHR ''@'' # ''did:plc:abc'') fresh
          = (Inr (Some ''did:plc:abc''), fresh)"
    by (rule conjunct2 [THEN conjunct2, THEN conjunct2, THEN conjunct2])
  with l have 1: "normalize_line demo_service ''@did:plc:abc'' fresh
                    = (Inr (Some ''did:plc:abc''), fresh)"
    by simp
  from b have "normalize_line demo_service (CHR ''@'' # ''did:plc:abc'' @ [CHR 0x0A, CHR 0x0A]) fresh
                 = (Inr (Some (rstrip (''did:plc:abc'' @ [CHR 0x0A, CHR 0x0A]))), fresh)"
    by (rule conjunct1)
  then have 2: "normalize_line demo_service (''@did:plc:abc'' @ [CHR 0x0A, CHR 0x0A]) fresh
                  = (Inr (Some ''did:plc:abc''), fresh)"
    by (simp only: r) simp
  from 1 2 show ?thesis by simp
qed

subsection \<open>Adding members\<close>

lemma listitem_create_world:
  "snd (listitem_create svc repo u d w)
     = w\<lparr>ticks := Suc (ticks w),
          calls := calls w @ [ListitemCreate repo
                     \<lparr>rec_list = u, rec_subject = d, rec_created_at = clock_iso svc (ticks w)\<rparr>]\<rparr>"
  by (simp add: listitem_create_def request_def Let_def split: option.splits)

text \<open>
  C5, as the specification states it, promises two distinct creation timestamps.
  The timestamp of a record is the clock reading taken for it and nothing in
  the code makes two readings differ: on a clock that returns the same reading
  twice, the two requests carry the same record.
\<close>

theorem add_twice_same_timestamp_counterexample:
  "calls (snd (add_user_to_list stalled_clock_service ''did:plc:abc'' ''u2''
                 (snd (add_user_to_list stalled_clock_service ''did:plc:abc'' ''u2'' fresh))))
     = [ListitemCreate ''chaosbengel.de''
          \<lparr>rec_list = ''u2'', rec_subject = ''did:plc:abc'', rec_created_at = ''2024-05-01T10:00:00''\<rparr>,
        ListitemCreate ''chaosbengel.de''
          \<lparr>rec_list = ''u2'', rec_subject = ''did:plc:abc'', rec_created_at = ''2024-05-01T10:00:00''\<rparr>]"
  by (simp add: listitem_create_world add_user_to_list_def BSKY_HANDLE_def fresh_def
           stalled_clock_service_def)

text \<open>
  C5, amended. Adding the same subject to the same list twice sends two
  membership-creation requests and nothing else: no request reads the list in
  between. Both records name the same list and subject, and each carries the
  clock reading taken for it, so the two records differ exactly when the two
  clock readings do. This holds for \<^verbatim>\<open>add_user_to_list\<close> of \<^verbatim>\<open>bskyMassLister.py\<close>
  and for the same call inside \<^verbatim>\<open>add_file_to_list\<close>.
\<close>

theorem add_twice_two_requests:
  "calls (snd (add_user_to_list svc d u (snd (add_user_to_list svc d u w))))
     = calls w @
       [ListitemCreate BSKY_HANDLE
          \<lparr>rec_list = u, rec_subject = d, rec_created_at = clock_iso svc (ticks w)\<rparr>,
        ListitemCreate BSKY_HANDLE
          \<lparr>rec_list = u, rec_subject = d, rec_created_at = clock_iso svc (Suc (ticks w))\<rparr>]
   \<and> calls (snd (listitem_create svc repo u d (snd (listitem_create svc repo u d w))))
     = calls w @
       [ListitemCreate repo
          \<lparr>rec_list = u, rec_subject = d, rec_created_at = clock_iso svc (ticks w)\<rparr>,
        ListitemCreate repo
          \<lparr>rec_list = u, rec_subject = d, rec_created_at = clock_iso svc (Suc (ticks w))\<rparr>]
   \<and> ((\<lparr>rec_list = u, rec_subject = d, rec_created_at = clock_iso svc (ticks w)\<rparr>
         = \<lparr>rec_list = u, rec_subject = d, rec_created_at = clock_iso svc (Suc (ticks w))\<rparr>)
        = (clock_iso svc (ticks w) = clock_iso svc (Suc (ticks w))))"
  by (simp add: listitem_create_world add_user_to_list_def)

theorem add_twice_two_requests_witness:
  "calls (snd (add_user_to_list demo_service ''did:plc:abc'' ''u2''
                 (snd (add_user_to_list demo_service ''did:plc:abc'' ''u2'' fresh))))
     = [ListitemCreate ''chaosbengel.de''
          \<lparr>rec_list = ''u2'', rec_subject = ''did:plc:abc'', rec_created_at = ''2024-05-01T10:00:00''\<rparr>,
        ListitemCreate ''chaosbengel.de''
          \<lparr>rec_list = ''u2'', rec_subject = ''did:plc:abc'', rec_created_at = ''2024-05-01T10:00:01''\<rparr>]"
proof -
  have c0: "clock_iso demo_service (ticks fresh) = ''2024-05-01T10:00:00''"
    and c1: "clock_iso demo_service (Suc (ticks fresh)) = ''2024-05-01T10:00:01''"
    by (simp_all add: demo_service_def fresh_def)
  from add_twice_two_requests [of demo_service "''did:plc:abc''" "''u2''" fresh]
  have "calls (snd (add_user_to_list demo_service ''did:plc:abc'' ''u2''
                 (snd (add_user_to_list demo_service ''did:plc:abc'' ''u2'' fresh))))
     = calls fresh @
       [ListitemCreate BSKY_HANDLE
          \<lparr>rec_list = ''u2'', rec_subject = ''did:plc:abc'',
             rec_created_at = clock_iso demo_service (ticks fresh)\<rparr>,
        ListitemCreate BSKY_HANDLE
          \<lparr>rec_list = ''u2'', rec_subject = ''did:plc:abc'',
             rec_created_at = clock_iso demo_service (Suc (ticks fresh))\<rparr>]"
    by (rule conjunct1)
  then show ?thesis
    by (simp only: c0 c1) (simp add: fresh_def BSKY_HANDLE_def)
qed

lemma add_lines_append:
  "add_lines svc repo u pre w = (Inr (), w1)
   \<Longrightarrow> add_lines svc repo u (pre @ rest) w = add_lines svc repo u rest w1"
proof (induction pre arbitrary: w)
  case Nil
  then show ?case by simp
next
  case (Cons line pre)
  obtain r w' where step: "add_line svc repo u line w = (r, w')"
    by (cases "add_line svc repo u line w")
  show ?case
  proof (cases r)
    case (Inl e)
    with step Cons.prems show ?thesis by simp
  next
    case (Inr x)
    with step Cons.prems have "add_lines svc repo u pre w' = (Inr (), w1)" by simp
    then have "add_lines svc repo u (pre @ rest) w' = add_lines svc repo u rest w1"
      by (rule Cons.IH)
    with step Inr show ?thesis by simp
  qed
qed

lemma normalize_line_calls:
  assumes "normalize_line svc l w = (r, w')"
  shows "\<exists>cs. calls w' = calls w @ cs \<and> filter is_create cs = []"
proof (cases "strip l = []")
  case True
  with assms show ?thesis by (simp add: normalize_line_def)
next
  case False
  with assms show ?thesis
    by (auto simp: normalize_line_def Let_def request_def split: if_splits sum.splits)
qed

lemma normalize_line_skip:
  "normalize_line svc l w = (Inr None, w') \<longleftrightarrow> strip l = [] \<and> w' = w"
  by (auto simp: normalize_line_def Let_def split: if_splits sum.splits)

lemma listitem_create_calls:
  assumes "listitem_create svc repo u d w = (r, w')"
  shows "\<exists>c. calls w' = calls w @ [c] \<and> is_create c"
proof -
  from assms have "w' = snd (listitem_create svc repo u d w)" by simp
  then show ?thesis by (simp add: listitem_create_world)
qed

lemma add_line_ok_calls:
  assumes "add_line svc repo u l w = (Inr x, w')"
  shows "\<exists>cs. calls w' = calls w @ cs
            \<and> length (filter is_create cs) = (if strip l = [] then 0 else 1)"
proof -
  obtain r w1 where n: "normalize_line svc l w = (r, w1)"
    by (cases "normalize_line svc l w")
  then obtain cs where cs: "calls w1 = calls w @ cs" "filter is_create cs = []"
    using normalize_line_calls by blast
  show ?thesis
  proof (cases r)
    case (Inl e)
    with n assms show ?thesis by (simp add: add_line_def)
  next
    case (Inr s)
    show ?thesis
    proof (cases s)
      case None
      with Inr n have "strip l = []" "w1 = w" by (simp_all add: normalize_line_skip)
      moreover from None Inr n assms have "w' = w1" by (simp add: add_line_def)
      ultimately show ?thesis by simp
    next
      case (Some subj)
      with Inr n have ne: "strip l \<noteq> []" by (auto simp: normalize_line_def)
      from Some Inr n assms have "listitem_create svc repo u subj w1 = (Inr x, w')"
        by (simp add: add_line_def)
      then obtain c where "calls w' = calls w1 @ [c]" "is_create c"
        using listitem_create_calls by blast
      with cs ne show ?thesis by simp
    qed
  qed
qed

lemma add_line_fail_calls:
  assumes "add_line svc repo u l w = (Inl e, w')"
  shows "\<exists>cs. calls w' = calls w @ cs
            \<and> length (filter is_create cs)
                = (case fst (normalize_line svc l w) of Inl x \<Rightarrow> 0 | Inr s \<Rightarrow> 1)"
proof -
  obtain r w1 where n: "normalize_line svc l w = (r, w1)"
    by (cases "normalize_line svc l w")
  then obtain cs where cs: "calls w1 = calls w @ cs" "filter is_create cs = []"
    using normalize_line_calls by blast
  show ?thesis
  proof (cases r)
    case (Inl e')
    with n assms have "w' = w1" by (simp add: add_line_def)
    with cs n Inl show ?thesis by simp
  next
    case (Inr s)
    show ?thesis
    proof (cases s)
      case None
      with Inr n assms show ?thesis by (simp add: add_line_def)
    next
      case (Some subj)
      with Inr n assms have "listitem_create svc repo u subj w1 = (Inl e, w')"
        by (simp add: add_line_def)
      then obtain c where "calls w' = calls w1 @ [c]" "is_create c"
        using listitem_create_calls by blast
      with cs n Inr show ?thesis by simp
    qed
  qed
qed

lemma add_lines_ok_calls:
  "add_lines svc repo u ls w = (Inr (), w')
   \<Longrightarrow> \<exists>cs. calls w' = calls w @ cs
          \<and> length (filter is_create cs) = length (filter (\<lambda>l. strip l \<noteq> []) ls)"
proof (induction ls arbitrary: w)
  case Nil
  then show ?case by simp
next
  case (Cons line ls)
  obtain r w1 where step: "add_line svc repo u line w = (r, w1)"
    by (cases "add_line svc repo u line w")
  show ?case
  proof (cases r)
    case (Inl e)
    with step Cons.prems show ?thesis by simp
  next
    case (Inr x)
    with step obtain cs1 where cs1: "calls w1 = calls w @ cs1"
        "length (filter is_create cs1) = (if strip line = [] then 0 else 1)"
      using add_line_ok_calls by blast
    from Inr step Cons.prems have "add_lines svc repo u ls w1 = (Inr (), w')" by simp
    then obtain cs2 where cs2: "calls w' = calls w1 @ cs2"
        "length (filter is_create cs2) = length (filter (\<lambda>l. strip l \<noteq> []) ls)"
      using Cons.IH by blast
    from cs1 cs2 have "calls w' = calls w @ (cs1 @ cs2)
          \<and> length (filter is_create (cs1 @ cs2)) = length (filter (\<lambda>l. strip l \<noteq> []) (line # ls))"
      by simp
    then show ?thesis by blast
  qed
qed

text \<open>
  C6. In a run of \<^verbatim>\<open>add_file_to_list\<close>, let the lines before line \<open>l\<close> go through and
  let line \<open>l\<close> fail, in the resolver or in the write. Then the run ends with that
  failure in the state the failing line left, whatever lines follow: nothing is
  sent for them. The requests of the earlier lines stay in the log, one
  membership-creation request for each line that is not blank; the failing line
  adds none when its resolution failed and exactly one when its write failed.
\<close>

theorem add_file_to_list_abort:
  assumes "file_text env file = Some (Inr text)"
    and "readlines text = pre @ l # post"
    and "get_list_uri svc listname (handle self) w = (Inr u, w0)"
    and "add_lines svc (handle self) u pre w0 = (Inr (), w1)"
    and "add_line svc (handle self) u l w1 = (Inl e, w2)"
  shows "add_file_to_list env svc self listname file w = (Inl e, w2)
       \<and> (\<exists>cs. calls w1 = calls w0 @ cs
              \<and> length (filter is_create cs) = length (filter (\<lambda>x. strip x \<noteq> []) pre))
       \<and> (\<exists>cs. calls w2 = calls w1 @ cs
              \<and> length (filter is_create cs)
                  = (case fst (normalize_line svc l w1) of Inl x \<Rightarrow> 0 | Inr s \<Rightarrow> 1))"
proof -
  from assms(4) have "add_lines svc (handle self) u (pre @ l # post) w0
                        = add_lines svc (handle self) u (l # post) w1"
    by (rule add_lines_append)
  with assms(5) have "add_lines svc (handle self) u (pre @ l # post) w0 = (Inl e, w2)"
    by simp
  with assms(1,2,3) have 1: "add_file_to_list env svc self listname file w = (Inl e, w2)"
    by (simp add: add_file_to_list_def)
  from 1 add_lines_ok_calls [OF assms(4)] add_line_fail_calls [OF assms(5)]
  show ?thesis by blast
qed

theorem add_file_to_list_abort_witness:
  "add_file_to_list demo_env demo_service \<lparr>handle = ''me.example'', token_file = Some ''./.bsky.token''\<rparr>
     ''Friends'' ''members.txt'' fresh
   = (Inl (ServiceError ''rejected''),
      \<lparr>calls = [GetLists ''me.example'' None,
                ListitemCreate ''me.example''
                  \<lparr>rec_list = ''u2'', rec_subject = ''did:plc:a'', rec_created_at = ''2024-05-01T10:00:00''\<rparr>,
                ListitemCreate ''me.example''
                  \<lparr>rec_list = ''u2'', rec_subject = ''did:plc:gone'', rec_created_at = ''2024-05-01T10:00:01''\<rparr>],
       ticks = 2, written = []\<rparr>)"
proof -
  let ?text = "''did:plc:a'' @ [CHR 0x0A] @ [CHR 0x0A] @ ''did:plc:gone'' @ [CHR 0x0A] @ ''did:plc:b'' @ [CHR 0x0A]"
  let ?self = "\<lparr>handle = ''me.example'', token_file = Some ''./.bsky.token''\<rparr>"
  let ?w0 = "\<lparr>calls = [GetLists ''me.example'' None], ticks = 0, written = []\<rparr>"
  let ?c1 = "ListitemCreate ''me.example''
                  \<lparr>rec_list = ''u2'', rec_subject = ''did:plc:a'', rec_created_at = ''2024-05-01T10:00:00''\<rparr>"
  let ?c2 = "ListitemCreate ''me.example''
                  \<lparr>rec_list = ''u2'', rec_subject = ''did:plc:gone'', rec_created_at = ''2024-05-01T10:00:01''\<rparr>"
  let ?w1 = "\<lparr>calls = [GetLists ''me.example'' None, ?c1], ticks = 1, written = []\<rparr>"
  let ?w2 = "\<lparr>calls = [GetLists ''me.example'' None, ?c1, ?c2], ticks = 2, written = []\<rparr>"
  have f: "file_text demo_env ''members.txt'' = Some (Inr ?text)"
    by (simp add: demo_env_def)
  have l: "readlines ?text
             = [''did:plc:a'' @ [CHR 0x0A], [CHR 0x0A]] @ (''did:plc:gone'' @ [CHR 0x0A]) # [''did:plc:b'' @ [CHR 0x0A]]"
    by code_simp
  have g: "get_list_uri demo_service ''Friends'' (handle ?self) fresh = (Inr ''u2'', ?w0)"
    by (simp add: get_list_uri_def demo_service_def fresh_def request_def)
  have n1: "normalize_line demo_service (''did:plc:a'' @ [CHR 0x0A]) w = (Inr (Some ''did:plc:a''), w)" for w
    by (simp add: normalize_line_def strip_def rstrip_def isspace_def startswith_def)
  have n2: "normalize_line demo_service [CHR 0x0A] w = (Inr None, w)" for w
    by (simp add: normalize_line_def strip_def rstrip_def isspace_def)
  have n3: "normalize_line demo_service (''did:plc:gone'' @ [CHR 0x0A]) w = (Inr (Some ''did:plc:gone''), w)" for w
    by (simp add: normalize_line_def strip_def rstrip_def isspace_def startswith_def)
  have p: "add_lines demo_service (handle ?self) ''u2'' [''did:plc:a'' @ [CHR 0x0A], [CHR 0x0A]] ?w0
             = (Inr (), ?w1)"
    using n1 n2 by (simp add: add_line_def listitem_create_def request_def demo_service_def)
  have a: "add_line demo_service (handle ?self) ''u2'' (''did:plc:gone'' @ [CHR 0x0A]) ?w1
             = (Inl (ServiceError ''rejected''), ?w2)"
    using n3 by (simp add: add_line_def listitem_create_def request_def demo_service_def)
  from add_file_to_list_abort [OF f l g p a] show ?thesis by (rule conjunct1)
qed

subsection \<open>Signing in\<close>




text \<open>
  A token file or a credential file that is there but cannot be read ends the
  construction with the error of the read, before the two checks and before any
  request.
\<close>

lemma init_unreadable:
  "file_text env tp = Some (Inl e)
   \<Longrightarrow> init env svc handle_arg password_arg cred_file (Some tp) w = (Inl e, w)"
  "read_token_from_file env token_file_arg = Inr token \<Longrightarrow> file_text env cp = Some (Inl e)
   \<Longrightarrow> init env svc handle_arg password_arg (Some cp) token_file_arg w = (Inl e, w)"
  by (simp_all add: init_def read_token_from_file_def)

subsection \<open>Paginated export\<close>

lemma collect_loop_serves:
  "serves fetch cur ps \<Longrightarrow>
   collect_loop fetch mk proj cur w
     = Some (Inr (), w\<lparr>calls := calls w @ map mk (cur # map cursor (butlast ps)),
                       written := written w @ map (\<lambda>entry. proj entry @ [CHR 0x0A])
                                                (concat (map items ps))\<rparr>)"
proof (induction fetch cur ps arbitrary: w rule: serves.induct)
  case (1 fetch cur)
  then show ?case by simp
next
  case (2 fetch cur p)
  then show ?case
    by (subst collect_loop.simps) (simp add: request_def)
next
  case (3 fetch cur p q ps)
  let ?w' = "(request (mk cur) w)
               \<lparr>written := written w @ map (\<lambda>entry. proj entry @ [CHR 0x0A]) (items p)\<rparr>"
  from 3 have f: "fetch cur = Inr p" and c: "cursor p \<noteq> None"
    and s: "serves fetch (cursor p) (q # ps)" by simp_all
  from c obtain y where y: "cursor p = Some y" by auto
  have "collect_loop fetch mk proj cur w = collect_loop fetch mk proj (cursor p) ?w'"
    by (subst collect_loop.simps) (simp add: f y Let_def)
  also have "\<dots> = Some (Inr (), ?w'\<lparr>calls := calls ?w' @ map mk (cursor p # map cursor (butlast (q # ps))),
                       written := written ?w' @ map (\<lambda>entry. proj entry @ [CHR 0x0A])
                                                (concat (map items (q # ps)))\<rparr>)"
    using s by (rule "3.IH")
  finally show ?case by (simp add: request_def)
qed

lemma concat_full:
  "list_all (\<lambda>p. length (items p) = n) ps \<Longrightarrow> length (concat (map items ps)) = n * length ps"
  by (induction ps) auto

lemma full_pages_count:
  assumes "full_pages ps"
  shows "length ps = (if length (concat (map items ps)) = 0 then 1
                      else (length (concat (map items ps)) + 99) div 100)"
proof -
  from assms have "ps \<noteq> []" by (simp add: full_pages_def)
  then obtain bs l where ps: "ps = bs @ [l]"
    by (cases ps rule: rev_cases) auto
  from assms have full: "list_all (\<lambda>p. length (items p) = 100) bs"
    and k: "length (items l) \<le> 100"
    and z: "items l = [] \<longrightarrow> bs = []"
    by (simp_all add: full_pages_def ps)
  from full have "length (concat (map items bs)) = 100 * length bs"
    by (rule concat_full)
  then have N: "length (concat (map items ps)) = 100 * length bs + length (items l)"
    by (simp add: ps)
  have len: "length ps = length bs + 1" by (simp add: ps)
  show ?thesis
  proof (cases "items l = []")
    case True
    with z have "bs = []" by simp
    with True show ?thesis by (simp add: ps)
  next
    case False
    then have "0 < length (items l)" by simp
    with k have "(100 * length bs + length (items l) + 99) div 100 = length bs + 1" by arith
    with False show ?thesis by (simp only: N len) simp
  qed
qed

text \<open>
  C1, as the specification states it, counts the requests as the number of items
  divided by 100, rounded up. Pages of at most 100 items need not be full: the
  list below is served as two pages of one member each, and the export sends two
  page requests for two items.
\<close>

theorem backup_list_partial_pages_counterexample:
  "backup_list demo_service ''Friends'' ''me.example'' fresh
     = Some (Inr (),
             \<lparr>calls = [GetLists ''me.example'' None,
                       GetList ''u2'' 100 None,
                       GetList ''u2'' 100 (Some ''c1'')],
              ticks = 0,
              written = [''did:plc:m1'' @ [CHR 0x0A], ''did:plc:m2'' @ [CHR 0x0A]]\<rparr>)
   \<and> (2 + 99) div 100 = (1 :: nat)"
proof -
  let ?p1 = "\<lparr>items = [\<lparr>subject = \<lparr>did = ''did:plc:m1''\<rparr>\<rparr>], cursor = Some ''c1''\<rparr>"
  let ?p2 = "\<lparr>items = [\<lparr>subject = \<lparr>did = ''did:plc:m2''\<rparr>\<rparr>], cursor = None\<rparr>"
  have g: "get_list_uri demo_service ''Friends'' ''me.example'' fresh
             = (Inr ''u2'', \<lparr>calls = [GetLists ''me.example'' None], ticks = 0, written = []\<rparr>)"
    by (simp add: get_list_uri_def demo_service_def fresh_def request_def)
  have s: "serves (api_get_list demo_service ''u2'' 100) None [?p1, ?p2]"
    by (simp add: demo_service_def)
  show ?thesis
    by (simp add: backup_list_def g collect_loop_serves [OF s])
qed

text \<open>
  C1, amended. When the endpoint serves the collection as the pages \<open>ps\<close>, each of
  \<^verbatim>\<open>get_followers\<close>, \<^verbatim>\<open>backup_list\<close> and \<^verbatim>\<open>get_likes\<close> returns; it has written one
  line for every item of every page, pages in the order served and items in
  their order within the page, and it has sent one page request per page, the
  first without a cursor and each later one with the cursor of the page before.
  The number of requests is the number of pages; it equals the number of items
  divided by 100 and rounded up (1 for an empty collection) when the pages are
  cut at the limit, that is when \<open>full_pages ps\<close> holds.
\<close>

theorem pagination_collects:
  "(serves (api_get_followers svc h 100) None fs
      \<longrightarrow> get_followers svc h w
          = Some (Inr (),
                  w\<lparr>calls := calls w @ map (GetFollowers h 100) (None # map cursor (butlast fs)),
                    written := map (\<lambda>follower. did follower @ [CHR 0x0A]) (concat (map items fs))\<rparr>))
   \<and> (get_list_uri svc listname owner w = (Inr u, w1) \<and> serves (api_get_list svc u 100) None ms
      \<longrightarrow> backup_list svc listname owner w
          = Some (Inr (),
                  w1\<lparr>calls := calls w1 @ map (GetList u 100) (None # map cursor (butlast ms)),
                     written := map (\<lambda>entry. did (subject entry) @ [CHR 0x0A]) (concat (map items ms))\<rparr>))
   \<and> (link_to_at_uri svc post_url w = (Inr a, w2) \<and> serves (api_get_likes svc a 100) None ls
      \<longrightarrow> get_likes svc post_url w
          = Some (Inr (),
                  w2\<lparr>calls := calls w2 @ map (GetLikes a 100) (None # map cursor (butlast ls)),
                     written := map (\<lambda>l. did (actor l) @ [CHR 0x0A]) (concat (map items ls))\<rparr>))
   \<and> (serves fetch None ps \<longrightarrow> length (None # map cursor (butlast ps)) = length ps)
   \<and> (full_pages ps
      \<longrightarrow> length ps = (if length (concat (map items ps)) = 0 then 1
                       else (length (concat (map items ps)) + 99) div 100))"
proof -
  have 1: "serves (api_get_followers svc h 100) None fs
      \<longrightarrow> get_followers svc h w
          = Some (Inr (),
                  w\<lparr>calls := calls w @ map (GetFollowers h 100) (None # map cursor (butlast fs)),
                    written := map (\<lambda>follower. did follower @ [CHR 0x0A]) (concat (map items fs))\<rparr>)"
  proof
    assume s: "serves (api_get_followers svc h 100) None fs"
    show "get_followers svc h w
          = Some (Inr (),
                  w\<lparr>calls := calls w @ map (GetFollowers h 100) (None # map cursor (butlast fs)),
                    written := map (\<lambda>follower. did follower @ [CHR 0x0A]) (concat (map items fs))\<rparr>)"
      by (simp add: get_followers_def collect_loop_serves [OF s])
  qed
  have 2: "get_list_uri svc listname owner w = (Inr u, w1) \<and> serves (api_get_list svc u 100) None ms
      \<longrightarrow> backup_list svc listname owner w
          = Some (Inr (),
                  w1\<lparr>calls := calls w1 @ map (GetList u 100) (None # map cursor (butlast ms)),
                     written := map (\<lambda>entry. did (subject entry) @ [CHR 0x0A]) (concat (map items ms))\<rparr>)"
  proof
    assume "get_list_uri svc listname owner w = (Inr u, w1) \<and> serves (api_get_list svc u 100) None ms"
    then have g: "get_list_uri svc listname owner w = (Inr u, w1)"
      and s: "serves (api_get_list svc u 100) None ms" by simp_all
    show "backup_list svc listname owner w
          = Some (Inr (),
                  w1\<lparr>calls := calls w1 @ map (GetList u 100) (None # map cursor (butlast ms)),
                     written := map (\<lambda>entry. did (subject entry) @ [CHR 0x0A]) (concat (map items ms))\<rparr>)"
      by (simp add: backup_list_def g collect_loop_serves [OF s])
  qed
  have 3: "link_to_at_uri svc post_url w = (Inr a, w2) \<and> serves (api_get_likes svc a 100) None ls
      \<longrightarrow> get_likes svc post_url w
          = Some (Inr (),
                  w2\<lparr>calls := calls w2 @ map (GetLikes a 100) (None # map cursor (butlast ls)),
                     written := map (\<lambda>l. did (actor l) @ [CHR 0x0A]) (concat (map items ls))\<rparr>)"
  proof
    assume "link_to_at_uri svc post_url w = (Inr a, w2) \<and> serves (api_get_likes svc a 100) None ls"
    then have g: "link_to_at_uri svc post_url w = (Inr a, w2)"
      and s: "serves (api_get_likes svc a 100) None ls" by simp_all
    show "get_likes svc post_url w
          = Some (Inr (),
                  w2\<lparr>calls := calls w2 @ map (GetLikes a 100) (None # map cursor (butlast ls)),
                     written := map (\<lambda>l. did (actor l) @ [CHR 0x0A]) (concat (map items ls))\<rparr>)"
      by (simp add: get_likes_def g collect_loop_serves [OF s])
  qed
  have 4: "serves fetch None ps \<longrightarrow> length (None # map cursor (butlast ps)) = length ps"
    by (cases ps) auto
  from 1 2 3 4 full_pages_count [of ps] show ?thesis by blast
qed

theorem pagination_collects_witness:
  "get_followers demo_service ''me.example'' fresh
     = Some (Inr (),
             \<lparr>calls = [GetFollowers ''me.example'' 100 None,
                       GetFollowers ''me.example'' 100 (Some ''c1'')],
              ticks = 0,
              written = replicate 100 (''did:plc:f1'' @ [CHR 0x0A]) @ [''did:plc:f2'' @ [CHR 0x0A]]\<rparr>)
   \<and> backup_list demo_service ''Friends'' ''me.example'' fresh
     = Some (Inr (),
             \<lparr>calls = [GetLists ''me.example'' None,
                       GetList ''u2'' 100 None,
                       GetList ''u2'' 100 (Some ''c1'')],
              ticks = 0,
              written = [''did:plc:m1'' @ [CHR 0x0A], ''did:plc:m2'' @ [CHR 0x0A]]\<rparr>)
   \<and> get_likes demo_service ''https://site/profile/alice.example/post/rkey123'' fresh
     = Some (Inr (),
             \<lparr>calls = [ResolveHandle ''alice.example'',
                       GetLikes ''at://did:plc:alice/app.bsky.feed.post/rkey123'' 100 None],
              ticks = 0,
              written = [''did:plc:k1'' @ [CHR 0x0A]]\<rparr>)
   \<and> length [\<lparr>items = replicate 100 \<lparr>did = ''did:plc:f1''\<rparr>, cursor = Some ''c1''\<rparr>,
              \<lparr>items = [\<lparr>did = ''did:plc:f2''\<rparr>], cursor = None\<rparr>]
       = (101 + 99) div 100"
proof -
  let ?f1 = "\<lparr>items = replicate 100 \<lparr>did = ''did:plc:f1''\<rparr>, cursor = Some ''c1''\<rparr>"
  let ?f2 = "\<lparr>items = [\<lparr>did = ''did:plc:f2''\<rparr>], cursor = None :: string option\<rparr>"
  let ?m1 = "\<lparr>items = [\<lparr>subject = \<lparr>did = ''did:plc:m1''\<rparr>\<rparr>], cursor = Some ''c1''\<rparr>"
  let ?m2 = "\<lparr>items = [\<lparr>subject = \<lparr>did = ''did:plc:m2''\<rparr>\<rparr>], cursor = None :: string option\<rparr>"
  let ?k1 = "\<lparr>items = [\<lparr>actor = \<lparr>did = ''did:plc:k1''\<rparr>\<rparr>], cursor = None :: string option\<rparr>"
  let ?url = "''https://site/profile/alice.example/post/rkey123''"
  let ?at = "''at://did:plc:alice/app.bsky.feed.post/rkey123''"
  let ?w1 = "\<lparr>calls = [GetLists ''me.example'' None], ticks = 0, written = []\<rparr>"
  let ?w2 = "\<lparr>calls = [ResolveHandle ''alice.example''], ticks = 0, written = []\<rparr>"
  have sf: "serves (api_get_followers demo_service ''me.example'' 100) None [?f1, ?f2]"
    by (simp add: demo_service_def)
  have g: "get_list_uri demo_service ''Friends'' ''me.example'' fresh = (Inr ''u2'', ?w1)"
    by (simp add: get_list_uri_def demo_service_def fresh_def request_def)
  have sm: "serves (api_get_list demo_service ''u2'' 100) None [?m1, ?m2]"
    by (simp add: demo_service_def)
  have sp: "split ?url (CHR ''/'')
              = [''https:'', [], ''site'', ''profile'', ''alice.example'', ''post'', ''rkey123'']"
    by code_simp
  have l: "link_to_at_uri demo_service ?url fresh = (Inr ?at, ?w2)"
    by (simp add: link_to_at_uri_def sp index_def demo_service_def request_def fresh_def
             del: split.simps)
  have sl: "serves (api_get_likes demo_service ?at 100) None [?k1]"
    by (simp add: demo_service_def)
  have fp: "full_pages [?f1, ?f2]"
    by (simp add: full_pages_def)
  have n: "length (concat (map items [?f1, ?f2])) = 101"
    by simp
  note t = pagination_collects [where svc = demo_service and h = "''me.example''" and fs = "[?f1, ?f2]"
      and w = fresh and listname = "''Friends''" and owner = "''me.example''" and u = "''u2''"
      and ?w1.0 = ?w1 and ms = "[?m1, ?m2]" and post_url = ?url and a = ?at and ?w2.0 = ?w2
      and ls = "[?k1]" and fetch = "api_get_followers demo_service ''me.example'' 100"
      and ps = "[?f1, ?f2]"]
  from t sf have 1: "get_followers demo_service ''me.example'' fresh
     = Some (Inr (),
             fresh\<lparr>calls := calls fresh @ map (GetFollowers ''me.example'' 100)
                                            (None # map cursor (butlast [?f1, ?f2])),
                   written := map (\<lambda>follower. did follower @ [CHR 0x0A])
                                  (concat (map items [?f1, ?f2]))\<rparr>)"
    by blast
  from t g sm have 2: "backup_list demo_service ''Friends'' ''me.example'' fresh
     = Some (Inr (),
             ?w1\<lparr>calls := calls ?w1 @ map (GetList ''u2'' 100) (None # map cursor (butlast [?m1, ?m2])),
                 written := map (\<lambda>entry. did (subject entry) @ [CHR 0x0A])
                                (concat (map items [?m1, ?m2]))\<rparr>)"
    by blast
  from t l sl have 3: "get_likes demo_service ?url fresh
     = Some (Inr (),
             ?w2\<lparr>calls := calls ?w2 @ map (GetLikes ?at 100) (None # map cursor (butlast [?k1])),
                 written := map (\<lambda>l. did (actor l) @ [CHR 0x0A]) (concat (map items [?k1]))\<rparr>)"
    by blast
  from t fp have 4: "length [?f1, ?f2]
      = (if length (concat (map items [?f1, ?f2])) = 0 then 1
         else (length (concat (map items [?f1, ?f2])) + 99) div 100)"
    by blast
  from 1 have e1: "get_followers demo_service ''me.example'' fresh
     = Some (Inr (),
             \<lparr>calls = [GetFollowers ''me.example'' 100 None,
                       GetFollowers ''me.example'' 100 (Some ''c1'')],
              ticks = 0,
              written = replicate 100 (''did:plc:f1'' @ [CHR 0x0A]) @ [''did:plc:f2'' @ [CHR 0x0A]]\<rparr>)"
    by (simp add: fresh_def)
  from 2 have e2: "backup_list demo_service ''Friends'' ''me.example'' fresh
     = Some (Inr (),
             \<lparr>calls = [GetLists ''me.example'' None,
                       GetList ''u2'' 100 None,
                       GetList ''u2'' 100 (Some ''c1'')],
              ticks = 0,
              written = [''did:plc:m1'' @ [CHR 0x0A], ''did:plc:m2'' @ [CHR 0x0A]]\<rparr>)"
    by simp
  from 3 have e3: "get_likes demo_service ?url fresh
     = Some (Inr (),
             \<lparr>calls = [ResolveHandle ''alice.example'', GetLikes ?at 100 None],
              ticks = 0,
              written = [''did:plc:k1'' @ [CHR 0x0A]]\<rparr>)"
    by simp
  from 4 have e4: "length [?f1, ?f2] = (101 + 99) div 100"
    by (simp only: n) simp
  from e1 e2 e3 e4 show ?thesis by (intro conjI)
qed

end
